theory Spec2Isabelle
  imports
    Main
    "HOL-Library.Multiset"
    "HOL-Library.Char_ord"
    "HOL-Library.List_Lexorder"
begin

section \<open>Data model of \<^verbatim>\<open>ambassador/ir/irbasemapping.py\<close>\<close>

text \<open>
  \<^verbatim>\<open>route_weight: List[Union[str, int]]\<close>: an entry of a route weight is a string
  or an integer.
\<close>

datatype rw_item = RStr string | RInt int

text \<open>
  The attributes of an \<^verbatim>\<open>IRBaseMapping\<close>. \<^verbatim>\<open>rkey\<close>, \<^verbatim>\<open>name\<close>, \<^verbatim>\<open>location\<close>,
  \<^verbatim>\<open>kind\<close>, \<^verbatim>\<open>apiVersion\<close> and \<^verbatim>\<open>precedence\<close> are the parameters of
  \<^verbatim>\<open>__init__\<close>; \<^verbatim>\<open>host\<close>, \<^verbatim>\<open>prefix\<close> and \<^verbatim>\<open>weight\<close> are the declared routing
  attributes that arrive through \<^verbatim>\<open>**kwargs\<close> (\<^verbatim>\<open>weight\<close> is optional). The class
  body annotates \<^verbatim>\<open>group_id\<close>, \<^verbatim>\<open>host\<close>, \<^verbatim>\<open>route_weight\<close> and \<^verbatim>\<open>sni\<close> and
  gives them no value, so the three derived fields \<^verbatim>\<open>group_id\<close>, \<^verbatim>\<open>route_weight\<close>
  and \<^verbatim>\<open>sni\<close> are \<open>None\<close> until they are first assigned.
\<close>

record mapping =
  rkey :: string
  name :: string
  location :: string
  kind :: string
  apiVersion :: string
  precedence :: int
  host :: string
  prefix :: string
  weight :: "int option"
  group_id :: "string option"
  route_weight :: "rw_item list option"
  sni :: "bool option"

text \<open>
  A TLS context is read with \<^verbatim>\<open>context.get(key)\<close> only, so it is a dictionary from
  keys to values; the values are \<^verbatim>\<open>None\<close>, a string (the \<^verbatim>\<open>name\<close>) or a list of
  strings (the \<^verbatim>\<open>hosts\<close>).
\<close>

datatype ctx_val = VNone | VStr string | VList "string list"

type_synonym tls_context = "string \<rightharpoonup> ctx_val"

text \<open>
  The lines written to the logger, by level and arguments: the debug line of
  \<^verbatim>\<open>setup\<close> with the group id and the route weight (the rendering of the Mapping
  itself is left out), and the info line of a TLS match with the host and the name of
  the context.
\<close>

datatype log_entry =
  Debug_setup "string option" "rw_item list option"
  | Info_matched string ctx_val

text \<open>
  The part of the \<^verbatim>\<open>IR\<close> object that the class uses: the sequence that
  \<^verbatim>\<open>ir.get_tls_contexts()\<close> iterates over, and the lines written to \<^verbatim>\<open>ir.logger\<close>.
\<close>

record ir =
  tls_contexts :: "tls_context list"
  logger :: "log_entry list"

datatype error = NotImplementedError string | TypeError

text \<open>
  A concrete Mapping kind is a subclass of \<^verbatim>\<open>IRBaseMapping\<close>. It has a class name
  and may override \<^verbatim>\<open>_group_id\<close> and \<^verbatim>\<open>_route_weight\<close>; the overrides are not part
  of the file, so they are parameters, typed as the base methods are annotated
  (\<^verbatim>\<open>-> str\<close> and \<^verbatim>\<open>-> List[Union[str, int]]\<close>). \<open>None\<close> means that the kind
  inherits the base method.
\<close>

record mapping_class =
  class_name :: string
  override_group_id :: "(mapping \<Rightarrow> string) option"
  override_route_weight :: "(mapping \<Rightarrow> rw_item list) option"

section \<open>Operations of \<^verbatim>\<open>IRBaseMapping\<close>\<close>

text \<open>
  \<^verbatim>\<open>IRBaseMapping._group_id\<close>: the base method always raises. (An identifier cannot
  start with an underscore, hence \<open>base_group_id\<close> and \<open>call_group_id\<close>.)
\<close>

definition base_group_id :: "mapping_class \<Rightarrow> error + string" where
  "base_group_id cls = Inl (NotImplementedError (class_name cls @ ''._group_id is not implemented?''))"

text \<open>\<^verbatim>\<open>IRBaseMapping._route_weight\<close>: the base method always raises.\<close>

definition base_route_weight :: "mapping_class \<Rightarrow> error + rw_item list" where
  "base_route_weight cls =
     Inl (NotImplementedError (class_name cls @ ''._route_weight is not implemented?''))"

text \<open>The calls \<^verbatim>\<open>self._group_id()\<close> and \<^verbatim>\<open>self._route_weight()\<close>, with method dispatch.\<close>

definition call_group_id :: "mapping_class \<Rightarrow> mapping \<Rightarrow> error + string" where
  "call_group_id cls self =
     (case override_group_id cls of
        None \<Rightarrow> base_group_id cls
      | Some f \<Rightarrow> Inr (f self))"

definition call_route_weight :: "mapping_class \<Rightarrow> mapping \<Rightarrow> error + rw_item list" where
  "call_route_weight cls self =
     (case override_route_weight cls of
        None \<Rightarrow> base_route_weight cls
      | Some f \<Rightarrow> Inr (f self))"

text \<open>
  \<^verbatim>\<open>IRBaseMapping.setup\<close>. The result is the returned value or the raised error,
  together with the Mapping and the \<^verbatim>\<open>IR\<close> as the call leaves them: an assignment
  made before an exception stays made. The \<^verbatim>\<open>ir\<close> of the model is \<^verbatim>\<open>self.ir\<close>,
  whose logger the method writes to; the parameters \<^verbatim>\<open>ir\<close> and \<^verbatim>\<open>aconf\<close> of the
  method are not used by it. The name \<open>setup\<close> is a keyword of Isabelle, hence
  \<open>mapping_setup\<close>.
\<close>

definition mapping_setup :: "mapping_class \<Rightarrow> mapping \<Rightarrow> ir \<Rightarrow> (error + bool) \<times> mapping \<times> ir" where
  "mapping_setup cls self i =
     (case call_group_id cls self of
        Inl e \<Rightarrow> (Inl e, self, i)
      | Inr g \<Rightarrow>
          (let self1 = self\<lparr>group_id := Some g\<rparr> in
           case call_route_weight cls self1 of
             Inl e \<Rightarrow> (Inl e, self1, i)
           | Inr w \<Rightarrow>
               (let self2 = self1\<lparr>route_weight := Some w\<rparr> in
                (Inr True, self2,
                 i\<lparr>logger := logger i @ [Debug_setup (group_id self2) (route_weight self2)]\<rparr>))))"

text \<open>\<^verbatim>\<open>context.get(key)\<close>: a missing key reads as \<^verbatim>\<open>None\<close>, it does not raise.\<close>

definition dict_get :: "tls_context \<Rightarrow> string \<Rightarrow> ctx_val" where
  "dict_get context k = (case context k of None \<Rightarrow> VNone | Some v \<Rightarrow> v)"

text \<open>Python truthiness: \<^verbatim>\<open>None\<close>, the empty string and the empty list are false.\<close>

fun truthy :: "ctx_val \<Rightarrow> bool" where
  "truthy VNone = False"
| "truthy (VStr s) = (s \<noteq> [])"
| "truthy (VList xs) = (xs \<noteq> [])"

text \<open>\<^verbatim>\<open>v or []\<close>\<close>

definition or_empty :: "ctx_val \<Rightarrow> ctx_val" where
  "or_empty v = (if truthy v then v else VList [])"

text \<open>
  What a \<^verbatim>\<open>for\<close> loop iterates over: the elements of a list, the one-character
  strings of a string; iterating \<^verbatim>\<open>None\<close> raises \<^verbatim>\<open>TypeError\<close>.
\<close>

fun iter_val :: "ctx_val \<Rightarrow> error + string list" where
  "iter_val VNone = Inl TypeError"
| "iter_val (VStr s) = Inr (map (\<lambda>c. [c]) s)"
| "iter_val (VList xs) = Inr xs"

text \<open>
  The inner loop of \<^verbatim>\<open>match_tls_context\<close>: \<open>True\<close> when the loop reaches a
  \<^verbatim>\<open>context_host == host\<close> (and the method returns), \<open>False\<close> when it runs out.
\<close>

fun scan_hosts :: "string \<Rightarrow> string list \<Rightarrow> bool" where
  "scan_hosts h [] = False"
| "scan_hosts h (context_host # rest) = (if context_host = h then True else scan_hosts h rest)"

text \<open>The outer loop: the context at which the method returns, if any.\<close>

fun scan_contexts :: "string \<Rightarrow> tls_context list \<Rightarrow> error + tls_context option" where
  "scan_contexts h [] = Inr None"
| "scan_contexts h (context # rest) =
     (case iter_val (or_empty (dict_get context ''hosts'')) of
        Inl e \<Rightarrow> Inl e
      | Inr hosts \<Rightarrow> if scan_hosts h hosts then Inr (Some context) else scan_contexts h rest)"

text \<open>
  \<^verbatim>\<open>IRBaseMapping.match_tls_context\<close>: on a match it logs, sets \<^verbatim>\<open>self.sni\<close> and
  returns the context; otherwise it returns \<^verbatim>\<open>None\<close>.
\<close>

definition match_tls_context ::
  "mapping \<Rightarrow> string \<Rightarrow> ir \<Rightarrow> (error + tls_context option) \<times> mapping \<times> ir" where
  "match_tls_context self h i =
     (case scan_contexts h (tls_contexts i) of
        Inl e \<Rightarrow> (Inl e, self, i)
      | Inr None \<Rightarrow> (Inr None, self, i)
      | Inr (Some context) \<Rightarrow>
          (Inr (Some context), self\<lparr>sni := Some True\<rparr>,
           i\<lparr>logger := logger i @ [Info_matched h (dict_get context ''name'')]\<rparr>))"

text \<open>
  The set of hosts that a TLS context serves, as the specification speaks of it: the
  entries of its \<^verbatim>\<open>hosts\<close> value, and no host when the value is missing or \<^verbatim>\<open>None\<close>.
\<close>

definition hosts_set :: "tls_context \<Rightarrow> string set" where
  "hosts_set context =
     (case context ''hosts'' of
        Some (VList xs) \<Rightarrow> set xs
      | Some (VStr s) \<Rightarrow> (\<lambda>c. [c]) ` set s
      | _ \<Rightarrow> {})"


section \<open>Ordering, grouping and canary balancing\<close>

text \<open>
  The file at hand holds the base class only: the route-weight formula of the concrete
  Mapping kinds, the grouping of Mappings and the balancing of canary weights live
  elsewhere in the repository. The definitions of this section follow the
  specification (its sections 3, 4.2, 4.3 and 4.5).
\<close>

text \<open>
  Modelled from the spec: the route weight of a Mapping (the \<^verbatim>\<open>_route_weight\<close> of the
  concrete Mapping kinds is missing). It is the tuple of the explicit precedence, the
  path specificity (the length of the prefix) and the resource key.
\<close>

definition routeWeight :: "mapping \<Rightarrow> int \<times> nat \<times> string" where
  "routeWeight m = (precedence m, length (prefix m), rkey m)"

text \<open>
  Modelled from the spec: the comparison of two route weights (the sort of a group by
  route weight is missing). Higher precedence sorts first, then the longer prefix, then
  the lexicographically smaller resource key; strings are compared character by
  character, by character code, a proper prefix being the smaller.
\<close>

fun sorts_before :: "int \<times> nat \<times> string \<Rightarrow> int \<times> nat \<times> string \<Rightarrow> bool" where
  "sorts_before (p, s, k) (p', s', k') =
     (p' < p \<or> (p = p' \<and> (s' < s \<or> (s = s' \<and> k \<le> k'))))"

text \<open>
  Modelled from the spec: the step that orders the members of a group by route weight
  (missing), as an insertion sort.
\<close>

fun insert_member :: "mapping \<Rightarrow> mapping list \<Rightarrow> mapping list" where
  "insert_member m [] = [m]"
| "insert_member m (x # xs) =
     (if sorts_before (routeWeight m) (routeWeight x) then m # x # xs
      else x # insert_member m xs)"

text \<open>Modelled from the spec: the ordering of a whole group (missing).\<close>

definition order_members :: "mapping list \<Rightarrow> mapping list" where
  "order_members ms = foldr insert_member ms []"

text \<open>
  Modelled from the spec: the RouteGroup of the data model (its class is missing): the
  group id that its members share, the members in order, and the total weight, absent
  until the group is balanced. The group id has the type of the Mapping field it is
  read from.
\<close>

record route_group =
  groupId :: "string option"
  members :: "mapping list"
  totalWeight :: "int option"

text \<open>
  Modelled from the spec: putting one Mapping into the group of its group id (the
  grouping step is missing); a group id seen for the first time opens a new group.
\<close>

fun add_member :: "mapping \<Rightarrow> route_group list \<Rightarrow> route_group list" where
  "add_member m [] = [\<lparr>groupId = group_id m, members = [m], totalWeight = None\<rparr>]"
| "add_member m (g # gs) =
     (if groupId g = group_id m then g\<lparr>members := members g @ [m]\<rparr> # gs
      else g # add_member m gs)"

text \<open>Modelled from the spec: the grouping of all Mappings of a pass by group id (missing).\<close>

definition group_mappings :: "mapping list \<Rightarrow> route_group list" where
  "group_mappings ms = foldl (\<lambda>gs m. add_member m gs) [] ms"

text \<open>
  Modelled from the spec: the clamping of a declared canary weight to the range from 0
  to 100 (the balancer is missing).
\<close>

definition clamp :: "int \<Rightarrow> int" where
  "clamp w = max 0 (min 100 w)"

text \<open>
  Modelled from the spec: the even split of an amount among \<open>n\<close> members (the balancer
  is missing). Every member receives the quotient, and the remainder goes, one unit
  each, to the earliest members.
\<close>

definition even_split :: "int \<Rightarrow> nat \<Rightarrow> int list" where
  "even_split amount n =
     map (\<lambda>i. amount div int n + (if int i < amount mod int n then 1 else 0)) [0..<n]"

text \<open>
  Modelled from the spec: the weights of a group with undeclared members (the balancer
  is missing). A declared weight is honoured, clamped; the undeclared members take the
  shares in order (there is one share for each of them, so the shares do not run out).
\<close>

fun fill :: "int option list \<Rightarrow> int list \<Rightarrow> int list" where
  "fill [] shares = []"
| "fill (Some w # ws) shares = clamp w # fill ws shares"
| "fill (None # ws) [] = 0 # fill ws []"
| "fill (None # ws) (s # shares) = s # fill ws shares"

text \<open>
  Modelled from the spec: the proportional share of a weight in a total, as a
  percentage rounded to the nearest integer, a half rounding up (the balancer is
  missing). Weights that total zero have no proportion, and the share is 0.
\<close>

definition share :: "int \<Rightarrow> int \<Rightarrow> int" where
  "share t w = (if t = 0 then 0 else (200 * w + t) div (2 * t))"

text \<open>
  Modelled from the spec: the minimum of 1 that is reserved for a nonzero weight whose
  share would round down to 0 (the balancer is missing).
\<close>

definition reserve :: "int \<Rightarrow> int \<Rightarrow> int" where
  "reserve w s = (if w \<noteq> 0 \<and> s = 0 then 1 else s)"

text \<open>
  Modelled from the spec: the position of the largest weight (the balancer is
  missing); of several largest weights the earliest one, in the order of the group.
  \<open>largest_from b v i xs\<close> scans \<open>xs\<close>, whose first position is \<open>i\<close>, with the
  best position \<open>b\<close> and its weight \<open>v\<close> so far.
\<close>

fun largest_from :: "nat \<Rightarrow> int \<Rightarrow> nat \<Rightarrow> int list \<Rightarrow> nat" where
  "largest_from b v i [] = b"
| "largest_from b v i (x # xs) =
     (if v < x then largest_from i x (Suc i) xs else largest_from b v (Suc i) xs)"

definition largest_index :: "int list \<Rightarrow> nat" where
  "largest_index xs = (case xs of [] \<Rightarrow> 0 | x # rest \<Rightarrow> largest_from 0 x 1 rest)"

text \<open>
  Modelled from the spec: the proportional rescaling of weights that do not sum to 100
  (the balancer is missing). Every weight is replaced by its rounded share, with the
  reserved minimum of 1 for a nonzero weight; the largest of the resulting weights is
  then trimmed by what the weights exceed 100 together, so that they sum to 100. The
  weights 80 and 90 become 47 and 53.
\<close>

definition rescale :: "int list \<Rightarrow> int list" where
  "rescale ws =
     (let t = sum_list ws;
          rs = map (\<lambda>w. reserve w (share t w)) ws;
          l = largest_index rs
      in if rs = [] then [] else rs[l := rs ! l - (sum_list rs - 100)])"

text \<open>
  Modelled from the spec: the policy of the canary weight balancer (missing), on the
  declared weights of the members in route-weight order. With no declared weight the
  100 percent are split evenly. With some declared weights these are honoured, clamped,
  and the undeclared members split what remains, or receive 0 when the declared weights
  reach 100; declared weights that exceed 100 together overcommit the group, and the
  weights are then rescaled as the overcommitted weights of a fully declared group are.
  With all weights declared, they stand when they sum to 100 and are rescaled
  otherwise. The warning that is recorded for an overcommitted group is not part of
  the model: it changes no weight.
\<close>

definition balance_weights :: "int option list \<Rightarrow> int list" where
  "balance_weights ws =
     (let declared_ws = List.map_filter (\<lambda>w. w) ws;
          undeclared = length (filter (\<lambda>w. w = None) ws)
      in if declared_ws = [] then even_split 100 (length ws)
         else if 0 < undeclared then
           (let committed = sum_list (map clamp declared_ws);
                filled = fill ws (if 100 \<le> committed then replicate undeclared 0
                                  else even_split (100 - committed) undeclared)
            in if committed \<le> 100 then filled else rescale filled)
         else if sum_list declared_ws = 100 then declared_ws
         else rescale declared_ws)"

text \<open>
  Modelled from the spec: \<^verbatim>\<open>balance(group) -> group'\<close> (missing): every member's
  weight is replaced by its normalized weight, and the total weight is their sum.
\<close>

definition balance :: "route_group \<Rightarrow> route_group" where
  "balance g =
     (let ws = balance_weights (map weight (members g))
      in g\<lparr>members := map (\<lambda>(m, w). m\<lparr>weight := Some w\<rparr>) (zip (members g) ws),
           totalWeight := Some (sum_list ws)\<rparr>)"

text \<open>
  The invariant of the grouping: the groups have distinct ids, no group is empty, and
  every member carries the id of its group.
\<close>

definition groups_ok :: "route_group list \<Rightarrow> bool" where
  "groups_ok gs \<longleftrightarrow> distinct (map groupId gs)
     \<and> list_all (\<lambda>g. members g \<noteq> [] \<and> list_all (\<lambda>m. group_id m = groupId g) (members g)) gs"

section \<open>Example values\<close>

definition example_member :: "string \<Rightarrow> int \<Rightarrow> string \<Rightarrow> int option \<Rightarrow> mapping" where
  "example_member k p pre w =
     \<lparr>rkey = k, name = k, location = ''mappings.yaml'', kind = ''Mapping'',
      apiVersion = ''ambassador/v1'', precedence = p, host = ''x.com'', prefix = pre,
      weight = w, group_id = None, route_weight = None, sni = Some False\<rparr>"

definition example_mapping :: mapping where
  "example_mapping = example_member ''m1.default.1'' 0 ''/foo/'' None"

definition base_class :: mapping_class where
  "base_class =
     \<lparr>class_name = ''IRBaseMapping'', override_group_id = None, override_route_weight = None\<rparr>"

definition example_class :: mapping_class where
  "example_class =
     \<lparr>class_name = ''IRHTTPMapping'',
      override_group_id = Some (\<lambda>m. host m @ prefix m),
      override_route_weight =
        Some (\<lambda>m. [RInt (precedence m), RInt (int (length (prefix m))), RStr (rkey m)])\<rparr>"



definition context_A :: tls_context where
  "context_A = [''name'' \<mapsto> VStr ''A'', ''hosts'' \<mapsto> VList [''x.com'']]"

definition context_B :: tls_context where
  "context_B = [''name'' \<mapsto> VStr ''B'', ''hosts'' \<mapsto> VList [''y.com'', ''z.com'']]"

definition context_no_hosts :: tls_context where
  "context_no_hosts = [''name'' \<mapsto> VStr ''N'']"

section \<open>TLS context matching\<close>

lemma scan_hosts_iff: "scan_hosts h hs \<longleftrightarrow> h \<in> set hs"
  by (induction hs) auto

lemma iter_hosts_entry:
  "\<exists>hs. iter_val (or_empty (dict_get context ''hosts'')) = Inr hs \<and> set hs = hosts_set context"
proof (cases "context ''hosts''")
  case None
  then show ?thesis by (simp add: dict_get_def or_empty_def hosts_set_def)
next
  case (Some v)
  then show ?thesis
    by (cases v) (auto simp: dict_get_def or_empty_def hosts_set_def)
qed

lemma scan_contexts_find:
  "scan_contexts h cs = Inr (find (\<lambda>c. h \<in> hosts_set c) cs)"
proof (induction cs)
  case Nil
  show ?case by simp
next
  case (Cons c cs)
  obtain hs where hs: "iter_val (or_empty (dict_get c ''hosts'')) = Inr hs" "set hs = hosts_set c"
    using iter_hosts_entry by blast
  show ?case using Cons.IH hs by (simp add: scan_hosts_iff)
qed

text \<open>
  C1. For every host and every sequence of TLS contexts, \<^verbatim>\<open>match_tls_context\<close>
  returns the first context, in the order of the sequence, whose set of hosts contains
  the host; with the contexts \<open>[A, B]\<close> that both serve \<open>x.com\<close> it returns \<open>A\<close>.
\<close>

theorem match_tls_context_first_match:
  "fst (match_tls_context self h i) = Inr (find (\<lambda>c. h \<in> hosts_set c) (tls_contexts i))
   \<and> fst (match_tls_context self ''x.com''
        \<lparr>tls_contexts = [[''name'' \<mapsto> VStr ''A'', ''hosts'' \<mapsto> VList [''x.com'']],
                          [''name'' \<mapsto> VStr ''B'', ''hosts'' \<mapsto> VList [''x.com'']]],
         logger = lg\<rparr>)
     = Inr (Some [''name'' \<mapsto> VStr ''A'', ''hosts'' \<mapsto> VList [''x.com'']])"
proof
  show "fst (match_tls_context self h i) = Inr (find (\<lambda>c. h \<in> hosts_set c) (tls_contexts i))"
    by (simp add: match_tls_context_def scan_contexts_find split: option.split)
next
  show "fst (match_tls_context self ''x.com''
        \<lparr>tls_contexts = [[''name'' \<mapsto> VStr ''A'', ''hosts'' \<mapsto> VList [''x.com'']],
                          [''name'' \<mapsto> VStr ''B'', ''hosts'' \<mapsto> VList [''x.com'']]],
         logger = lg\<rparr>)
     = Inr (Some [''name'' \<mapsto> VStr ''A'', ''hosts'' \<mapsto> VList [''x.com'']])"
    by (simp add: match_tls_context_def dict_get_def or_empty_def)
qed

lemma scan_contexts_no_match:
  "\<forall>c\<in>set cs. h \<notin> hosts_set c \<Longrightarrow> scan_contexts h cs = Inr None"
  by (simp add: scan_contexts_find find_None_iff)

text \<open>
  C2. When no context of the sequence has the host in its set of hosts,
  \<^verbatim>\<open>match_tls_context\<close> returns \<^verbatim>\<open>None\<close> and raises nothing, and it leaves the
  Mapping as it was: \<^verbatim>\<open>sni\<close> is not assigned, so a flag that was not true is not
  true afterwards.
\<close>

theorem match_tls_context_no_match:
  assumes "\<forall>c\<in>set (tls_contexts i). h \<notin> hosts_set c"
  shows "match_tls_context self h i = (Inr None, self, i)
         \<and> sni (fst (snd (match_tls_context self h i))) = sni self"
  using scan_contexts_no_match [OF assms] by (simp add: match_tls_context_def)

theorem match_tls_context_no_match_witness:
  "fst (match_tls_context example_mapping ''x.com''
          \<lparr>tls_contexts = [context_B, context_no_hosts], logger = []\<rparr>) = Inr None
   \<and> sni example_mapping = Some False
   \<and> sni (fst (snd (match_tls_context example_mapping ''x.com''
          \<lparr>tls_contexts = [context_B, context_no_hosts], logger = []\<rparr>))) = Some False"
proof -
  have h: "\<forall>c\<in>set (tls_contexts \<lparr>tls_contexts = [context_B, context_no_hosts], logger = []\<rparr>).
             ''x.com'' \<notin> hosts_set c"
    by (simp add: hosts_set_def context_B_def context_no_hosts_def)
  show ?thesis
    using match_tls_context_no_match [OF h, of example_mapping]
    by (simp add: example_mapping_def example_member_def)
qed

lemma iter_hosts_absent:
  assumes "ctx ''hosts'' = None \<or> ctx ''hosts'' = Some VNone"
  shows "iter_val (or_empty (dict_get ctx ''hosts'')) = Inr []"
  using assms by (auto simp: dict_get_def or_empty_def)

lemma scan_contexts_skip:
  assumes "iter_val (or_empty (dict_get ctx ''hosts'')) = Inr []"
  shows "scan_contexts h (before @ ctx # after) = scan_contexts h (before @ after)"
proof (induction before)
  case Nil
  show ?case using assms by simp
next
  case (Cons c cs)
  then show ?case by (simp split: sum.split)
qed

lemma scan_contexts_total: "scan_contexts h cs \<noteq> Inl e"
  by (simp add: scan_contexts_find)

text \<open>
  C10. A context whose \<^verbatim>\<open>hosts\<close> entry is absent or \<^verbatim>\<open>None\<close> is scanned as a
  context with no hosts: the loop over its hosts iterates over the empty list and
  raises no \<^verbatim>\<open>TypeError\<close>, the context is never the one returned on its own
  account, and the call gives the result it gives on the sequence without that context,
  so the scan goes on to the later contexts. The call raises no error.
\<close>

theorem match_tls_context_hosts_absent:
  assumes "ctx ''hosts'' = None \<or> ctx ''hosts'' = Some VNone"
  shows "iter_val (or_empty (dict_get ctx ''hosts'')) = Inr []
         \<and> scan_contexts h [ctx] = Inr None
         \<and> match_tls_context self h (i\<lparr>tls_contexts := before @ ctx # after\<rparr>)
           = (case match_tls_context self h (i\<lparr>tls_contexts := before @ after\<rparr>) of
                (r, self', i') \<Rightarrow> (r, self', i'\<lparr>tls_contexts := before @ ctx # after\<rparr>))
         \<and> fst (match_tls_context self h (i\<lparr>tls_contexts := before @ ctx # after\<rparr>)) \<noteq> Inl e"
proof -
  have empty: "iter_val (or_empty (dict_get ctx ''hosts'')) = Inr []"
    using assms by (rule iter_hosts_absent)
  have skip: "scan_contexts h (before @ ctx # after) = scan_contexts h (before @ after)"
    using empty by (rule scan_contexts_skip)
  have alone: "scan_contexts h [ctx] = Inr None"
    using empty by simp
  have same: "match_tls_context self h (i\<lparr>tls_contexts := before @ ctx # after\<rparr>)
           = (case match_tls_context self h (i\<lparr>tls_contexts := before @ after\<rparr>) of
                (r, self', i') \<Rightarrow> (r, self', i'\<lparr>tls_contexts := before @ ctx # after\<rparr>))"
    by (simp add: match_tls_context_def skip split: sum.split option.split)
  have total: "fst (match_tls_context self h (i\<lparr>tls_contexts := before @ ctx # after\<rparr>)) \<noteq> Inl e"
    by (simp add: match_tls_context_def scan_contexts_find split: option.split)
  show ?thesis using empty alone same total by blast
qed

theorem match_tls_context_hosts_absent_witness:
  "context_no_hosts ''hosts'' = None
   \<and> fst (match_tls_context example_mapping ''x.com''
            \<lparr>tls_contexts = [context_B, context_no_hosts, context_A], logger = []\<rparr>)
     = Inr (Some context_A)
   \<and> fst (match_tls_context example_mapping ''x.com''
            \<lparr>tls_contexts = [context_B, context_A], logger = []\<rparr>)
     = Inr (Some context_A)"
proof -
  have h: "context_no_hosts ''hosts'' = None \<or> context_no_hosts ''hosts'' = Some VNone"
    by (simp add: context_no_hosts_def)
  have r: "fst (match_tls_context example_mapping ''x.com''
            \<lparr>tls_contexts = [context_B, context_A], logger = []\<rparr>) = Inr (Some context_A)"
    by (simp add: match_tls_context_def dict_get_def or_empty_def context_A_def context_B_def)
  have eq: "fst (match_tls_context example_mapping ''x.com''
            \<lparr>tls_contexts = [context_B, context_no_hosts, context_A], logger = []\<rparr>)
     = fst (match_tls_context example_mapping ''x.com''
            \<lparr>tls_contexts = [context_B, context_A], logger = []\<rparr>)"
    using match_tls_context_hosts_absent
      [where ctx = context_no_hosts and self = example_mapping and h = "''x.com''"
         and i = "\<lparr>tls_contexts = [], logger = []\<rparr>"
         and before = "[context_B]" and after = "[context_A]", OF h]
    by (simp add: case_prod_beta)
  show ?thesis
    using eq r by (simp add: context_no_hosts_def)
qed

section \<open>What the operations change\<close>

text \<open>
  C5, as stated: once \<^verbatim>\<open>setup\<close> has run, no later operation changes a field of the
  Mapping, TLS context matching included. It fails: a match assigns \<^verbatim>\<open>self.sni\<close>.
\<close>

theorem match_tls_context_mutates_mapping:
  "fst (mapping_setup example_class example_mapping \<lparr>tls_contexts = [context_A], logger = []\<rparr>)
     = Inr True
   \<and> fst (snd (match_tls_context
        (fst (snd (mapping_setup example_class example_mapping
                     \<lparr>tls_contexts = [context_A], logger = []\<rparr>)))
        ''x.com'' \<lparr>tls_contexts = [context_A], logger = []\<rparr>))
     \<noteq> fst (snd (mapping_setup example_class example_mapping
                     \<lparr>tls_contexts = [context_A], logger = []\<rparr>))"
  by (simp add: mapping_setup_def call_group_id_def call_route_weight_def example_class_def
      example_mapping_def example_member_def match_tls_context_def dict_get_def or_empty_def
      context_A_def Let_def)

text \<open>
  C5, amended: \<^verbatim>\<open>match_tls_context\<close> changes no field of the Mapping other than
  \<^verbatim>\<open>sni\<close>; it sets \<^verbatim>\<open>sni\<close> to true when a context matches and leaves the Mapping
  as it is otherwise.
\<close>

theorem match_tls_context_frame:
  "fst (snd (match_tls_context self h i))
   = (case find (\<lambda>c. h \<in> hosts_set c) (tls_contexts i) of
        None \<Rightarrow> self
      | Some c \<Rightarrow> self\<lparr>sni := Some True\<rparr>)"
  by (simp add: match_tls_context_def scan_contexts_find split: option.split)

section \<open>Deriving the group id and the route weight\<close>

text \<open>
  C3. For a Mapping kind that does not implement \<^verbatim>\<open>_group_id\<close> or does not implement
  \<^verbatim>\<open>_route_weight\<close>, \<^verbatim>\<open>setup\<close> raises \<^verbatim>\<open>NotImplementedError\<close>: it does not return,
  and it assigns no value to the field whose derivation is missing. Without
  \<^verbatim>\<open>_group_id\<close> the error names \<^verbatim>\<open>_group_id\<close> and the Mapping is untouched; with
  \<^verbatim>\<open>_group_id\<close> but without \<^verbatim>\<open>_route_weight\<close> the error names \<^verbatim>\<open>_route_weight\<close>.
\<close>

theorem setup_missing_capability:
  assumes "override_group_id cls = None \<or> override_route_weight cls = None"
  shows "(\<exists>msg. fst (mapping_setup cls self i) = Inl (NotImplementedError msg))
         \<and> route_weight (fst (snd (mapping_setup cls self i))) = route_weight self
         \<and> snd (snd (mapping_setup cls self i)) = i
         \<and> (override_group_id cls = None \<longrightarrow>
              mapping_setup cls self i
              = (Inl (NotImplementedError (class_name cls @ ''._group_id is not implemented?'')),
                 self, i))
         \<and> (override_group_id cls \<noteq> None \<longrightarrow>
              fst (mapping_setup cls self i)
              = Inl (NotImplementedError (class_name cls @ ''._route_weight is not implemented?'')))"
proof (cases "override_group_id cls")
  case None
  then show ?thesis
    by (simp add: mapping_setup_def call_group_id_def base_group_id_def)
next
  case (Some f)
  with assms have "override_route_weight cls = None" by simp
  with Some show ?thesis
    by (simp add: mapping_setup_def call_group_id_def call_route_weight_def
        base_route_weight_def Let_def)
qed

theorem setup_missing_capability_witness:
  "override_group_id base_class = None
   \<and> mapping_setup base_class example_mapping \<lparr>tls_contexts = [], logger = []\<rparr>
     = (Inl (NotImplementedError ''IRBaseMapping._group_id is not implemented?''),
        example_mapping, \<lparr>tls_contexts = [], logger = []\<rparr>)"
proof -
  have h: "override_group_id base_class = None \<or> override_route_weight base_class = None"
    by (simp add: base_class_def)
  show ?thesis
    using setup_missing_capability
      [OF h, of example_mapping "\<lparr>tls_contexts = [], logger = []\<rparr>"]
    by (simp add: base_class_def)
qed




section \<open>The order of a group\<close>

lemma mset_insert_member: "mset (insert_member m xs) = add_mset m (mset xs)"
  by (induction xs) auto

lemma mset_order_members: "mset (order_members ms) = mset ms"
  by (induction ms) (auto simp: order_members_def mset_insert_member)

lemma set_insert_member: "set (insert_member m xs) = insert m (set xs)"
  by (induction xs) auto

lemma sorts_before_total: "\<not> sorts_before x y \<Longrightarrow> sorts_before y x"
  by (cases x; cases y) auto

lemma sorts_before_trans: "sorts_before x y \<Longrightarrow> sorts_before y z \<Longrightarrow> sorts_before x z"
  by (cases x; cases y; cases z) auto

lemma sorted_insert_member:
  "sorted_wrt (\<lambda>a b. sorts_before (routeWeight a) (routeWeight b)) xs \<Longrightarrow>
   sorted_wrt (\<lambda>a b. sorts_before (routeWeight a) (routeWeight b)) (insert_member m xs)"
proof (induction xs)
  case Nil
  show ?case by simp
next
  case (Cons x xs)
  show ?case
  proof (cases "sorts_before (routeWeight m) (routeWeight x)")
    case True
    with Cons.prems show ?thesis by (auto intro: sorts_before_trans)
  next
    case False
    then have "sorts_before (routeWeight x) (routeWeight m)" by (rule sorts_before_total)
    with False Cons show ?thesis by (auto simp: set_insert_member)
  qed
qed

lemma sorted_order_members:
  "sorted_wrt (\<lambda>a b. sorts_before (routeWeight a) (routeWeight b)) (order_members ms)"
  by (induction ms) (auto simp: order_members_def sorted_insert_member)

lemma sorted_strict:
  "sorted_wrt (\<lambda>a b. sorts_before (routeWeight a) (routeWeight b)) xs \<Longrightarrow>
   distinct (map rkey xs) \<Longrightarrow>
   sorted_wrt (\<lambda>a b. precedence b < precedence a
       \<or> (precedence a = precedence b
          \<and> (length (prefix b) < length (prefix a)
             \<or> (length (prefix a) = length (prefix b) \<and> rkey a < rkey b)))) xs"
proof (induction xs)
  case Nil
  show ?case by simp
next
  case (Cons x xs)
  have tl: "sorted_wrt (\<lambda>a b. precedence b < precedence a
       \<or> (precedence a = precedence b
          \<and> (length (prefix b) < length (prefix a)
             \<or> (length (prefix a) = length (prefix b) \<and> rkey a < rkey b)))) xs"
    using Cons by simp
  have hd: "precedence y < precedence x
       \<or> (precedence x = precedence y
          \<and> (length (prefix y) < length (prefix x)
             \<or> (length (prefix x) = length (prefix y) \<and> rkey x < rkey y)))"
    if y: "y \<in> set xs" for y
  proof -
    have ne: "rkey x \<noteq> rkey y" using Cons.prems(2) y by auto
    have "sorts_before (routeWeight x) (routeWeight y)" using Cons.prems(1) y by simp
    then show ?thesis using ne by (auto simp: routeWeight_def less_le)
  qed
  show ?case using tl hd by simp
qed

lemma sorted_wrt_asym_unique:
  assumes "\<And>a b. R a b \<Longrightarrow> \<not> R b a"
  shows "sorted_wrt R xs \<Longrightarrow> sorted_wrt R ys \<Longrightarrow> set xs = set ys \<Longrightarrow> xs = ys"
proof (induction xs arbitrary: ys)
  case Nil
  then show ?case by simp
next
  case (Cons x xs)
  then obtain y ys' where ys: "ys = y # ys'" by (cases ys) auto
  have irr: "\<And>a. \<not> R a a" using assms by blast
  have xy: "x = y"
  proof (rule ccontr)
    assume ne: "x \<noteq> y"
    have "x \<in> set ys'" using Cons.prems(3) ys ne by auto
    then have 1: "R y x" using Cons.prems(2) ys by simp
    have "y \<in> set xs" using Cons.prems(3) ys ne by auto
    then have "R x y" using Cons.prems(1) by simp
    with 1 assms show False by blast
  qed
  have nx: "x \<notin> set xs" using Cons.prems(1) irr by auto
  have ny: "y \<notin> set ys'" using Cons.prems(2) ys irr by auto
  have "set xs = set ys'" using Cons.prems(3) ys xy nx ny by auto
  then have "xs = ys'" using Cons.IH Cons.prems(1,2) ys by simp
  with xy ys show ?case by simp
qed

text \<open>
  C8. The members of a group, whose resource keys are unique, are sorted into a strict
  total order: of two members the one with the higher precedence comes first; with
  equal precedence the one with the longer prefix comes first; with equal precedence and
  equal prefix length the one with the lexicographically smaller resource key comes
  first. The sorted group has the members of the group, and the result does not depend
  on the order in which the members were given, so no tie is left to chance.
\<close>

theorem order_members_total_order:
  assumes "distinct (map rkey ms)"
  shows "mset (order_members ms) = mset ms
    \<and> (\<forall>i j. i < j \<and> j < length ms \<longrightarrow>
         precedence (order_members ms ! j) < precedence (order_members ms ! i)
         \<or> (precedence (order_members ms ! i) = precedence (order_members ms ! j)
            \<and> (length (prefix (order_members ms ! j)) < length (prefix (order_members ms ! i))
               \<or> (length (prefix (order_members ms ! i)) = length (prefix (order_members ms ! j))
                  \<and> rkey (order_members ms ! i) < rkey (order_members ms ! j)))))
    \<and> (mset ms' = mset ms \<longrightarrow> order_members ms' = order_members ms)"
proof -
  let ?lt = "\<lambda>a b. precedence b < precedence a
       \<or> (precedence a = precedence b
          \<and> (length (prefix b) < length (prefix a)
             \<or> (length (prefix a) = length (prefix b) \<and> rkey a < rkey b)))"
  have asym: "\<And>a b. ?lt a b \<Longrightarrow> \<not> ?lt b a" by auto
  have strict: "sorted_wrt ?lt (order_members xs)" if "distinct (map rkey xs)" for xs
  proof -
    have "mset (map rkey (order_members xs)) = mset (map rkey xs)"
      by (simp add: mset_order_members)
    then have "distinct (map rkey (order_members xs))"
      using that by (metis mset_eq_imp_distinct_iff)
    then show ?thesis using sorted_order_members by (rule sorted_strict [rotated])
  qed
  have len: "length (order_members ms) = length ms"
    using mset_order_members by (metis size_mset)
  have nth: "\<forall>i j. i < j \<and> j < length ms \<longrightarrow> ?lt (order_members ms ! i) (order_members ms ! j)"
    using strict [OF assms] len by (simp add: sorted_wrt_iff_nth_less)
  have perm: "order_members ms' = order_members ms" if eq: "mset ms' = mset ms"
  proof -
    have "mset (map rkey ms') = mset (map rkey ms)" using eq by simp
    then have d': "distinct (map rkey ms')" using assms by (metis mset_eq_imp_distinct_iff)
    have "set (order_members ms') = set (order_members ms)"
      using eq by (metis mset_order_members set_mset_mset)
    then show ?thesis
      using sorted_wrt_asym_unique [of ?lt, OF asym strict [OF d'] strict [OF assms]] by blast
  qed
  show ?thesis using mset_order_members nth perm by blast
qed

theorem order_members_total_order_witness:
  "distinct (map rkey [example_member ''b'' 0 ''/foo/'' None, example_member ''a'' 0 ''/foo/'' None,
                       example_member ''c'' 1 ''/'' None, example_member ''d'' 0 ''/foo/bar/'' None])
   \<and> order_members [example_member ''a'' 0 ''/foo/'' None, example_member ''d'' 0 ''/foo/bar/'' None,
                     example_member ''b'' 0 ''/foo/'' None, example_member ''c'' 1 ''/'' None]
     = order_members [example_member ''b'' 0 ''/foo/'' None, example_member ''a'' 0 ''/foo/'' None,
                       example_member ''c'' 1 ''/'' None, example_member ''d'' 0 ''/foo/bar/'' None]
   \<and> map rkey (order_members
         [example_member ''b'' 0 ''/foo/'' None, example_member ''a'' 0 ''/foo/'' None,
          example_member ''c'' 1 ''/'' None, example_member ''d'' 0 ''/foo/bar/'' None])
     = [''c'', ''d'', ''a'', ''b'']"
proof -
  let ?ms = "[example_member ''b'' 0 ''/foo/'' None, example_member ''a'' 0 ''/foo/'' None,
              example_member ''c'' 1 ''/'' None, example_member ''d'' 0 ''/foo/bar/'' None]"
  let ?ms' = "[example_member ''a'' 0 ''/foo/'' None, example_member ''d'' 0 ''/foo/bar/'' None,
               example_member ''b'' 0 ''/foo/'' None, example_member ''c'' 1 ''/'' None]"
  have d: "distinct (map rkey ?ms)" by (simp add: example_member_def)
  have p: "mset ?ms' = mset ?ms" by (simp add: add_mset_commute)
  have "mset ?ms' = mset ?ms \<longrightarrow> order_members ?ms' = order_members ?ms"
    using order_members_total_order [OF d, of ?ms'] by (elim conjE)
  with p have e: "order_members ?ms' = order_members ?ms" by (rule rev_mp)
  have v: "map rkey (order_members ?ms) = [''c'', ''d'', ''a'', ''b'']"
    by (simp add: order_members_def routeWeight_def example_member_def)
  show ?thesis using d e v by (intro conjI)
qed

section \<open>Grouping\<close>

lemma mset_add_member:
  "mset (concat (map members (add_member m gs))) = add_mset m (mset (concat (map members gs)))"
  by (induction gs) auto

lemma groupId_add_member:
  "set (map groupId (add_member m gs)) = insert (group_id m) (set (map groupId gs))"
  by (induction gs) auto

lemma groups_ok_add_member: "groups_ok gs \<Longrightarrow> groups_ok (add_member m gs)"
  unfolding groups_ok_def
proof (induction gs)
  case Nil
  show ?case by simp
next
  case (Cons g gs)
  then show ?case using groupId_add_member [of m gs] by auto
qed

lemma foldl_add_member:
  "groups_ok gs \<Longrightarrow>
   groups_ok (foldl (\<lambda>gs m. add_member m gs) gs ms)
   \<and> mset (concat (map members (foldl (\<lambda>gs m. add_member m gs) gs ms)))
     = mset ms + mset (concat (map members gs))"
  by (induction ms arbitrary: gs) (auto simp: groups_ok_add_member mset_add_member)


text \<open>
  C9. The groups partition the input: the members of all groups together are the input
  Mappings, each as often as it occurs in the input; the groups have distinct group ids,
  none is empty, every member carries the id of its group, and every input Mapping is a
  member of exactly one group.
\<close>

theorem group_mappings_partition:
  "mset (concat (map members (group_mappings ms))) = mset ms
   \<and> distinct (map groupId (group_mappings ms))
   \<and> (\<forall>g\<in>set (group_mappings ms).
        members g \<noteq> [] \<and> (\<forall>m\<in>set (members g). group_id m = groupId g))
   \<and> (\<forall>m\<in>set ms. \<exists>!g. g \<in> set (group_mappings ms) \<and> m \<in> set (members g))"
proof -
  let ?gs = "group_mappings ms"
  have "groups_ok []" by (simp add: groups_ok_def)
  from foldl_add_member [OF this, of ms]
  have ok: "groups_ok ?gs" and ms: "mset (concat (map members ?gs)) = mset ms"
    by (simp_all add: group_mappings_def)
  have d: "distinct (map groupId ?gs)" using ok by (simp add: groups_ok_def)
  have inv: "\<forall>g\<in>set ?gs. members g \<noteq> [] \<and> (\<forall>m\<in>set (members g). group_id m = groupId g)"
    using ok by (simp add: groups_ok_def list_all_iff)
  have one: "\<exists>!g. g \<in> set ?gs \<and> m \<in> set (members g)" if m: "m \<in> set ms" for m
  proof -
    have "m \<in> set (concat (map members ?gs))"
      using m ms by (metis set_mset_mset)
    then obtain g where g: "g \<in> set ?gs" "m \<in> set (members g)" by auto
    have "g' = g" if g': "g' \<in> set ?gs" "m \<in> set (members g')" for g'
    proof -
      have "groupId g' = groupId g" using inv g g' by metis
      with d g(1) g'(1) show ?thesis by (meson distinct_map inj_onD)
    qed
    with g show ?thesis by blast
  qed
  show ?thesis using ms d inv one by blast
qed

theorem group_mappings_partition_witness:
  "mset (concat (map members (group_mappings
      [example_member ''b'' 0 ''/foo/'' None\<lparr>group_id := Some ''x.com/foo/''\<rparr>,
       example_member ''a'' 0 ''/bar/'' None\<lparr>group_id := Some ''x.com/bar/''\<rparr>,
       example_member ''c'' 0 ''/foo/'' None\<lparr>group_id := Some ''x.com/foo/''\<rparr>])))
   = mset [example_member ''b'' 0 ''/foo/'' None\<lparr>group_id := Some ''x.com/foo/''\<rparr>,
       example_member ''a'' 0 ''/bar/'' None\<lparr>group_id := Some ''x.com/bar/''\<rparr>,
       example_member ''c'' 0 ''/foo/'' None\<lparr>group_id := Some ''x.com/foo/''\<rparr>]
   \<and> map (\<lambda>g. (groupId g, map rkey (members g))) (group_mappings
      [example_member ''b'' 0 ''/foo/'' None\<lparr>group_id := Some ''x.com/foo/''\<rparr>,
       example_member ''a'' 0 ''/bar/'' None\<lparr>group_id := Some ''x.com/bar/''\<rparr>,
       example_member ''c'' 0 ''/foo/'' None\<lparr>group_id := Some ''x.com/foo/''\<rparr>])
     = [(Some ''x.com/foo/'', [''b'', ''c'']), (Some ''x.com/bar/'', [''a''])]"
proof -
  let ?ms = "[example_member ''b'' 0 ''/foo/'' None\<lparr>group_id := Some ''x.com/foo/''\<rparr>,
       example_member ''a'' 0 ''/bar/'' None\<lparr>group_id := Some ''x.com/bar/''\<rparr>,
       example_member ''c'' 0 ''/foo/'' None\<lparr>group_id := Some ''x.com/foo/''\<rparr>]"
  have m: "mset (concat (map members (group_mappings ?ms))) = mset ?ms"
    using group_mappings_partition [of ?ms] by (elim conjE)
  have v: "map (\<lambda>g. (groupId g, map rkey (members g))) (group_mappings ?ms)
           = [(Some ''x.com/foo/'', [''b'', ''c'']), (Some ''x.com/bar/'', [''a''])]"
    by (simp add: group_mappings_def example_member_def)
  show ?thesis using m v by (rule conjI)
qed

section \<open>Canary balancing\<close>

lemma sum_list_split_upto:
  "sum_list (map (\<lambda>i. q + (if int i < r then 1 else 0)) [0..<n]) = int n * q + min (int n) (max 0 r)"
  by (induction n) (auto simp: algebra_simps)

lemma sum_list_even_split:
  assumes "0 \<le> amount" and "0 < n"
  shows "sum_list (even_split amount n) = amount"
proof -
  have r: "0 \<le> amount mod int n" "amount mod int n < int n" using assms(2) by simp_all
  have "sum_list (even_split amount n) = int n * (amount div int n) + amount mod int n"
    unfolding even_split_def sum_list_split_upto using r by simp
  then show ?thesis by simp
qed

lemma length_even_split: "length (even_split amount n) = n"
  by (simp add: even_split_def)








lemma declared_empty: "List.map_filter (\<lambda>w. w) ws = [] \<longleftrightarrow> (\<forall>w\<in>set ws. w = None)"
  by (induction ws) (auto split: option.splits)





lemma balance_weights_all_undeclared:
  assumes "\<forall>w\<in>set ws. w = None"
  shows "balance_weights ws = even_split 100 (length ws)"
  using assms by (simp add: balance_weights_def declared_empty Let_def)


lemma weights_assigned:
  "length out = length ms \<Longrightarrow>
   map weight (map (\<lambda>(m, w). m\<lparr>weight := Some w\<rparr>) (zip ms out)) = map Some out"
  by (induction ms out rule: list_induct2') auto

lemma balance_members:
  "length (balance_weights (map weight (members g))) = length (members g) \<Longrightarrow>
   map weight (members (balance g))
   = map Some (balance_weights (map weight (members g)))"
  using weights_assigned [of "balance_weights (map weight (members g))" "members g"]
  by (simp add: balance_def Let_def)



text \<open>
  C7. In a non-empty group in which no member declares a weight, every member receives
  the quotient of 100 by the number of members, and the earliest members, in the order
  of the group, receive one unit more each until the remainder is used up; the weights
  sum to 100. Three members receive 34, 33 and 33.
\<close>

theorem balance_even_split:
  assumes "members g \<noteq> []" and "\<forall>m\<in>set (members g). weight m = None"
  shows "map weight (members (balance g))
         = map (\<lambda>i. Some (100 div int (length (members g))
                          + (if int i < 100 mod int (length (members g)) then 1 else 0)))
             [0..<length (members g)]
    \<and> totalWeight (balance g) = Some 100
    \<and> (length (members g) = 3 \<longrightarrow>
         map weight (members (balance g)) = [Some 34, Some 33, Some 33])"
proof -
  let ?n = "length (members g)"
  have un: "\<forall>w\<in>set (map weight (members g)). w = None" using assms(2) by simp
  have bw: "balance_weights (map weight (members g)) = even_split 100 ?n"
    using balance_weights_all_undeclared [OF un] by simp
  have len: "length (balance_weights (map weight (members g))) = ?n"
    by (simp add: bw length_even_split)
  have w: "map weight (members (balance g)) = map Some (even_split 100 ?n)"
    using balance_members [OF len] bw by simp
  have n: "0 < ?n" using assms(1) by simp
  have t: "totalWeight (balance g) = Some 100"
    using sum_list_even_split [of 100 ?n] n by (simp add: balance_def Let_def bw)
  have f: "map weight (members (balance g))
         = map (\<lambda>i. Some (100 div int ?n + (if int i < 100 mod int ?n then 1 else 0))) [0..<?n]"
    using w by (simp add: even_split_def)
  have three: "map weight (members (balance g)) = [Some 34, Some 33, Some 33]"
    if "?n = 3"
    using w that by (simp add: even_split_def upt_rec)
  show ?thesis using f t three by blast
qed

theorem balance_even_split_witness:
  "map weight (members (balance
      \<lparr>groupId = Some ''x.com/foo/'',
       members = [example_member ''a'' 0 ''/foo/'' None, example_member ''b'' 0 ''/foo/'' None,
                  example_member ''c'' 0 ''/foo/'' None],
       totalWeight = None\<rparr>))
   = [Some 34, Some 33, Some 33]"
proof -
  let ?g = "\<lparr>groupId = Some ''x.com/foo/'',
       members = [example_member ''a'' 0 ''/foo/'' None, example_member ''b'' 0 ''/foo/'' None,
                  example_member ''c'' 0 ''/foo/'' None],
       totalWeight = None\<rparr>"
  have h1: "members ?g \<noteq> []" by simp
  have h2: "\<forall>m\<in>set (members ?g). weight m = None" by (simp add: example_member_def)
  have l: "length (members ?g) = 3" by simp
  show ?thesis
    using balance_even_split [OF h1 h2] l by blast
qed












lemma balance_scenarios:
  "balance_weights [Some 70, None] = [70, 30]"
  "balance_weights [Some 80, Some 90] = [47, 53]"
  "balance_weights [Some 30, None, Some 20, None, None] = [30, 17, 20, 17, 16]"
  by (simp_all add: balance_weights_def rescale_def share_def reserve_def largest_index_def
      even_split_def clamp_def Let_def upt_rec)

lemma sum_list_at_least_length:
  "\<forall>v\<in>set out. (1 :: int) \<le> v \<Longrightarrow> int (length out) \<le> sum_list out"
  by (induction out) auto

lemma no_weights_for_crowded_group:
  "length out = 101 \<Longrightarrow> \<forall>v\<in>set out. (1 :: int) \<le> v \<Longrightarrow> sum_list out \<noteq> 100"
  using sum_list_at_least_length [of out] by auto




end
